theory Spec2Isabelle
  imports Main
begin

section \<open>Rows and JavaScript arrays with holes\<close>

text \<open>
  A \<open>DataSourceRow\<close> is a tuple whose element 0 is the absolute index of the row in the
  dataset and whose element \<open>RENDER_IDX\<close> is the render slot used for ordering. Both are
  whole numbers on the wire and are modelled as \<open>int\<close>; the remaining elements are
  opaque to this code. The position \<open>RENDER_IDX\<close> is a constant of \<open>metadataKeys\<close> in
  the package \<open>vuu-utils\<close>, whose source lies outside the files verified here; the row is
  therefore a record with one field for each of the two positions the code reads, which
  the spec describes as two different fields.
\<close>

record DataSourceRow =
  row_index :: int
  render_idx :: int
  cells :: "string list"

text \<open>
  A JavaScript array of rows: the list gives the \<open>length\<close>, and \<open>None\<close> is a hole
  (an element that reads as \<open>undefined\<close>).
\<close>

type_synonym js_array = "DataSourceRow option list"

datatype error = RangeError

text \<open>\<open>new Array(n)\<close> throws a \<open>RangeError\<close> unless \<open>n\<close> is a valid array length.\<close>

definition new_Array :: "int \<Rightarrow> error + js_array" where
  "new_Array n =
     (if 0 \<le> n \<and> n < 2 ^ 32 then Inr (replicate (nat n) None) else Inl RangeError)"

text \<open>\<open>xs[i]\<close>: reading outside the array gives \<open>undefined\<close>.\<close>

definition js_get :: "js_array \<Rightarrow> int \<Rightarrow> DataSourceRow option" where
  "js_get xs i = (if 0 \<le> i \<and> i < int (length xs) then xs ! nat i else None)"

text \<open>
  \<open>xs[i] = v\<close>: writing at or beyond the length extends the array, the slots in between
  being holes. A negative \<open>i\<close> is not an array index and leaves the elements alone.
\<close>

definition js_set :: "js_array \<Rightarrow> int \<Rightarrow> DataSourceRow \<Rightarrow> js_array" where
  "js_set xs i v =
     (if i < 0 then xs
      else if i < int (length xs) then xs[nat i := Some v]
      else xs @ replicate (nat i - length xs) None @ [Some v])"

text \<open>\<open>xs.length = n\<close>: truncates or pads with holes; an invalid length throws.\<close>

definition set_length :: "js_array \<Rightarrow> int \<Rightarrow> error + js_array" where
  "set_length xs n =
     (if 0 \<le> n \<and> n < 2 ^ 32
      then Inr (take (nat n) xs @ replicate (nat n - length xs) None)
      else Inl RangeError)"

section \<open>WindowRange\<close>

text \<open>
  Modelled from the spec: the class \<open>WindowRange\<close> of the package \<open>vuu-utils\<close>, which
  \<open>useDataSource.ts\<close> imports and whose source lies outside the files verified here. The spec
  describes a range as a half-open interval \<open>[from, to)\<close> over absolute row indices,
  \<open>isWithin\<close> as the pure range-membership predicate and \<open>overlap(newFrom, newTo)\<close> as the
  intersection of the current range with a candidate range.
\<close>

record WindowRange =
  range_from :: int
  range_to :: int

definition isWithin :: "WindowRange \<Rightarrow> int \<Rightarrow> bool" where
  "isWithin r index = (range_from r \<le> index \<and> index < range_to r)"

definition overlap :: "WindowRange \<Rightarrow> int \<Rightarrow> int \<Rightarrow> int \<times> int" where
  "overlap r from' to' = (max from' (range_from r), min to' (range_to r))"

section \<open>MovingWindow\<close>

record MovingWindow =
  data :: js_array
  rowCount :: int
  wrange :: WindowRange

definition MovingWindow_new :: "int \<Rightarrow> int \<Rightarrow> error + MovingWindow" where
  "MovingWindow_new from' to' =
     (case new_Array (to' - from') of
        Inl e \<Rightarrow> Inl e
      | Inr a \<Rightarrow>
          Inr \<lparr>data = a, rowCount = 0,
               wrange = \<lparr>range_from = from', range_to = to'\<rparr>\<rparr>)"

definition setRowCount :: "MovingWindow \<Rightarrow> int \<Rightarrow> error + MovingWindow" where
  "setRowCount w n =
     (if n < int (length (data w))
      then (case set_length (data w) n of
              Inl e \<Rightarrow> Inl e
            | Inr d \<Rightarrow> Inr (w\<lparr>data := d, rowCount := n\<rparr>))
      else Inr (w\<lparr>rowCount := n\<rparr>))"

definition isWithinRange :: "MovingWindow \<Rightarrow> int \<Rightarrow> bool" where
  "isWithinRange w index = isWithin (wrange w) index"

definition add :: "MovingWindow \<Rightarrow> DataSourceRow \<Rightarrow> MovingWindow" where
  "add w row =
     (let index = row_index row in
      if isWithinRange w index
      then (let internalIndex = index - range_from (wrange w) in
            w\<lparr>data := js_set (data w) internalIndex row\<rparr>)
      else w)"

definition getAtIndex :: "MovingWindow \<Rightarrow> int \<Rightarrow> DataSourceRow option" where
  "getAtIndex w index =
     (if isWithin (wrange w) index \<and> js_get (data w) (index - range_from (wrange w)) \<noteq> None
      then js_get (data w) (index - range_from (wrange w))
      else None)"

text \<open>
  The loop of \<open>setRange\<close>: \<open>for (let i = overlapFrom; i < overlapTo; i++)\<close>, reading from
  the window as it was before the call and writing into \<open>newData\<close>.
\<close>

function copy_overlap :: "MovingWindow \<Rightarrow> int \<Rightarrow> int \<Rightarrow> int \<Rightarrow> js_array \<Rightarrow> js_array" where
  "copy_overlap w from' i overlapTo newData =
     (if i < overlapTo
      then copy_overlap w from' (i + 1) overlapTo
             (case getAtIndex w i of
                Some d \<Rightarrow> js_set newData (i - from') d
              | None \<Rightarrow> newData)
      else newData)"
  by pat_completeness auto
termination
  by (relation "measure (\<lambda>(w, from', i, overlapTo, newData). nat (overlapTo - i))") auto

declare copy_overlap.simps [simp del]

definition setRange :: "MovingWindow \<Rightarrow> int \<Rightarrow> int \<Rightarrow> error + MovingWindow" where
  "setRange w from' to' =
     (if from' \<noteq> range_from (wrange w) \<or> to' \<noteq> range_to (wrange w)
      then (case overlap (wrange w) from' to' of
              (overlapFrom, overlapTo) \<Rightarrow>
                (case new_Array (to' - from') of
                   Inl e \<Rightarrow> Inl e
                 | Inr newData \<Rightarrow>
                     Inr (w\<lparr>data := copy_overlap w from' overlapFrom overlapTo newData,
                            wrange := \<lparr>range_from = from', range_to = to'\<rparr>\<rparr>)))
      else Inr w)"

section \<open>Invariants of the window\<close>

text \<open>
  The slot-index invariant: every populated slot \<open>i\<close> of the buffer holds a row whose
  index field is \<open>range.from + i\<close>.
\<close>

definition slot_index_inv :: "MovingWindow \<Rightarrow> bool" where
  "slot_index_inv w =
     list_all (\<lambda>(i, slot). case slot of None \<Rightarrow> True
                 | Some r \<Rightarrow> row_index r = range_from (wrange w) + int i)
       (enumerate 0 (data w))"

text \<open>
  The window states a program can reach: a constructed window, and any state reached from
  one by \<open>add\<close>, \<open>setRange\<close> or \<open>setRowCount\<close>. A call that throws leaves the
  window as it was.
\<close>

inductive reachable :: "MovingWindow \<Rightarrow> bool" where
  reach_new: "MovingWindow_new from' to' = Inr w \<Longrightarrow> reachable w"
| reach_add: "reachable w \<Longrightarrow> reachable (add w row)"
| reach_setRange: "reachable w \<Longrightarrow> setRange w from' to' = Inr w' \<Longrightarrow> reachable w'"
| reach_setRowCount: "reachable w \<Longrightarrow> setRowCount w n = Inr w' \<Longrightarrow> reachable w'"

text \<open>The length invariant: \<open>buffer.length = range.to - range.from\<close>.\<close>

definition length_inv :: "MovingWindow \<Rightarrow> bool" where
  "length_inv w = (int (length (data w)) = range_to (wrange w) - range_from (wrange w))"

section \<open>The viewport controller (\<open>useDataSource\<close>)\<close>

text \<open>
  A message of the data source: its \<open>type\<close> tag, and for a \<open>viewport-update\<close> the
  optional \<open>size\<close> and \<open>rows\<close>. \<open>typeof message.size === "number"\<close> is
  \<open>msg_size m \<noteq> None\<close>; \<open>message.rows\<close> is truthy exactly when an array is present.
\<close>

record message =
  msg_type :: string
  msg_size :: "int option"
  msg_rows :: "DataSourceRow list option"

text \<open>The calls the hook makes on its collaborators, in the order it makes them.\<close>

datatype callback =
    OnSubscribed message
  | OnSizeChange int
  | OnConfigChange message
  | DataSourceSetRange int int

text \<open>
  The refs of the hook and what it has shown: \<open>renders\<close> lists, oldest first, the value of
  \<open>data.current\<close> handed to the rendering surface by each \<open>forceUpdate\<close>.
\<close>

record controller =
  dataWindow :: MovingWindow
  data_current :: js_array
  hasUpdated :: bool
  isMounted :: bool
  rafPending :: bool
  rangeRef :: "int \<times> int"
  calls :: "callback list"
  renders :: "js_array list"

text \<open>
  \<open>dataWindow.data.slice().sort(byKey)\<close>: the rows in ascending order of their
  \<open>RENDER_IDX\<close> field, rows with equal keys in their buffer order, and the holes last.
\<close>

definition slice_sort_byKey :: "js_array \<Rightarrow> js_array" where
  "slice_sort_byKey xs =
     map Some (sort_key render_idx (List.map_filter id xs)) @
     replicate (length (filter (\<lambda>x. x = None) xs)) None"

definition setData :: "controller \<Rightarrow> DataSourceRow list \<Rightarrow> controller" where
  "setData c updates =
     (let w = foldl add (dataWindow c) updates in
      c\<lparr>dataWindow := w, data_current := slice_sort_byKey (data w), hasUpdated := True\<rparr>)"

definition isConfigMessage :: "message \<Rightarrow> bool" where
  "isConfigMessage m = (msg_type m \<in> set [''aggregate'', ''filter'', ''groupBy'', ''sort''])"

text \<open>
  The handler returns the state it leaves behind, and the error when a statement threw
  (\<open>setRowCount\<close> with an invalid length, after \<open>onSizeChange\<close> has been called).
\<close>

definition datasourceMessageHandler :: "controller \<Rightarrow> message \<Rightarrow> error option \<times> controller" where
  "datasourceMessageHandler c m =
     (if msg_type m = ''subscribed'' then (None, c\<lparr>calls := calls c @ [OnSubscribed m]\<rparr>)
      else if msg_type m = ''viewport-update'' then
        (case (case msg_size m of
                 Some size' \<Rightarrow>
                   (let c1 = c\<lparr>calls := calls c @ [OnSizeChange size']\<rparr> in
                    case setRowCount (dataWindow c1) size' of
                      Inl e \<Rightarrow> Inl (e, c1)
                    | Inr w \<Rightarrow> Inr (c1\<lparr>dataWindow := w\<rparr>))
               | None \<Rightarrow> Inr c) of
           Inl (e, c1) \<Rightarrow> (Some e, c1)
         | Inr c2 \<Rightarrow>
             (case msg_rows m of
                Some rows \<Rightarrow> (None, setData c2 rows)
              | None \<Rightarrow>
                  (if msg_size m \<noteq> None
                   then (None, c2\<lparr>data_current := slice_sort_byKey (data (dataWindow c2)),
                                  hasUpdated := True\<rparr>)
                   else (None, c2))))
      else if isConfigMessage m then (None, c\<lparr>calls := calls c @ [OnConfigChange m]\<rparr>)
      else (None, c))"

text \<open>The frame-clock callback.\<close>

definition refreshIfUpdated :: "controller \<Rightarrow> controller" where
  "refreshIfUpdated c =
     (if isMounted c
      then (let c1 = (if hasUpdated c
                      then c\<lparr>renders := renders c @ [data_current c], hasUpdated := False\<rparr>
                      else c)
            in c1\<lparr>rafPending := True\<rparr>)
      else c)"

text \<open>The cleanup that runs when the component unmounts.\<close>

definition unmount :: "controller \<Rightarrow> controller" where
  "unmount c = (if rafPending c then c\<lparr>rafPending := False\<rparr> else c)\<lparr>isMounted := False\<rparr>"

text \<open>The \<open>setRange\<close> the hook hands to the rendering surface.\<close>

definition controller_setRange :: "controller \<Rightarrow> int \<Rightarrow> int \<Rightarrow> error option \<times> controller" where
  "controller_setRange c from' to' =
     (let c1 = c\<lparr>rangeRef := (from', to'),
                 calls := calls c @ [DataSourceSetRange from' to']\<rparr> in
      case setRange (dataWindow c1) from' to' of
        Inl e \<Rightarrow> (Some e, c1)
      | Inr w \<Rightarrow> (None, c1\<lparr>dataWindow := w\<rparr>))"

section \<open>JavaScript numbers for the scroll translator\<close>

text \<open>
  \<open>handleScroll\<close> divides by \<open>bufferHeight\<close> and by \<open>rowHeight\<close>, which may be zero, so
  its numbers are the whole numbers together with the two infinities and \<open>NaN\<close>. The
  operations below are those of IEEE doubles on these values (whole numbers are exact
  within the safe-integer range; a zero is the positive zero).
\<close>

datatype jsnum = Fin int | PosInf | NegInf | NaN

fun js_neg :: "jsnum \<Rightarrow> jsnum" where
  "js_neg (Fin x) = Fin (- x)"
| "js_neg PosInf = NegInf"
| "js_neg NegInf = PosInf"
| "js_neg NaN = NaN"

fun js_add :: "jsnum \<Rightarrow> jsnum \<Rightarrow> jsnum" where
  "js_add (Fin x) (Fin y) = Fin (x + y)"
| "js_add NaN _ = NaN"
| "js_add _ NaN = NaN"
| "js_add PosInf NegInf = NaN"
| "js_add NegInf PosInf = NaN"
| "js_add PosInf _ = PosInf"
| "js_add _ PosInf = PosInf"
| "js_add NegInf _ = NegInf"
| "js_add _ NegInf = NegInf"

definition js_sub :: "jsnum \<Rightarrow> jsnum \<Rightarrow> jsnum" where
  "js_sub a b = js_add a (js_neg b)"

text \<open>\<open>a > b\<close>; every comparison with \<open>NaN\<close> is false.\<close>

fun js_gt :: "jsnum \<Rightarrow> jsnum \<Rightarrow> bool" where
  "js_gt (Fin x) (Fin y) = (y < x)"
| "js_gt NaN _ = False"
| "js_gt _ NaN = False"
| "js_gt PosInf PosInf = False"
| "js_gt PosInf _ = True"
| "js_gt _ PosInf = False"
| "js_gt NegInf _ = False"
| "js_gt _ NegInf = True"

definition js_lt :: "jsnum \<Rightarrow> jsnum \<Rightarrow> bool" where
  "js_lt a b = js_gt b a"

definition js_ge :: "jsnum \<Rightarrow> jsnum \<Rightarrow> bool" where
  "js_ge a b = (a \<noteq> NaN \<and> b \<noteq> NaN \<and> \<not> js_gt b a)"

definition js_le :: "jsnum \<Rightarrow> jsnum \<Rightarrow> bool" where
  "js_le a b = js_ge b a"

fun js_abs :: "jsnum \<Rightarrow> jsnum" where
  "js_abs (Fin x) = Fin \<bar>x\<bar>"
| "js_abs PosInf = PosInf"
| "js_abs NegInf = PosInf"
| "js_abs NaN = NaN"

text \<open>\<open>Math.max(a, b)\<close> is \<open>NaN\<close> as soon as one argument is.\<close>

definition js_max :: "jsnum \<Rightarrow> jsnum \<Rightarrow> jsnum" where
  "js_max a b = (if a = NaN \<or> b = NaN then NaN else if js_gt a b then a else b)"

fun js_sign :: "jsnum \<Rightarrow> int" where
  "js_sign (Fin x) = sgn x"
| "js_sign PosInf = 1"
| "js_sign NegInf = - 1"
| "js_sign NaN = 0"

definition signed_inf :: "int \<Rightarrow> jsnum" where
  "signed_inf s = (if s = 0 then NaN else if 0 < s then PosInf else NegInf)"

text \<open>\<open>a * b\<close>: an infinity times zero is \<open>NaN\<close>.\<close>

fun js_mul :: "jsnum \<Rightarrow> jsnum \<Rightarrow> jsnum" where
  "js_mul (Fin x) (Fin y) = Fin (x * y)"
| "js_mul NaN _ = NaN"
| "js_mul _ NaN = NaN"
| "js_mul a b = signed_inf (js_sign a * js_sign b)"

text \<open>
  \<open>Math.floor(a / b)\<close>. A nonzero number over zero is an infinity, zero over zero is
  \<open>NaN\<close>, and \<open>Math.floor\<close> leaves both as they are.
\<close>

fun js_floor_div :: "jsnum \<Rightarrow> jsnum \<Rightarrow> jsnum" where
  "js_floor_div (Fin x) (Fin y) = (if y = 0 then signed_inf (sgn x) else Fin (x div y))"
| "js_floor_div NaN _ = NaN"
| "js_floor_div _ NaN = NaN"
| "js_floor_div (Fin x) _ = Fin 0"
| "js_floor_div a (Fin y) = signed_inf (js_sign a * (if y < 0 then - 1 else 1))"
| "js_floor_div _ _ = NaN"

section \<open>The scroll translator (\<open>useScroll\<close>)\<close>

record ScrollHookProps =
  bufferCount :: int
  dataRowCount :: int
  rowHeight :: int
  visibleRowCount :: int

text \<open>
  The state the hook keeps between scroll events: the anchor \<open>scrollTopRef.current\<close>, the
  \<open>firstRowIndex\<close> state, and the scroll position \<open>(scrollLeft, scrollTop)\<close> of the table
  element (\<open>None\<close> while \<open>table.current\<close> is null).
\<close>

record scroll_state =
  scrollTopRef :: jsnum
  firstRowIndex :: jsnum
  table :: "(int \<times> int) option"

definition useScroll_init :: "(int \<times> int) option \<Rightarrow> scroll_state" where
  "useScroll_init t = \<lparr>scrollTopRef = Fin 0, firstRowIndex = Fin 0, table = t\<rparr>"

definition renderedRowsCount :: "ScrollHookProps \<Rightarrow> int" where
  "renderedRowsCount p = visibleRowCount p + 2 * bufferCount p"

definition bufferHeight :: "ScrollHookProps \<Rightarrow> int" where
  "bufferHeight p = bufferCount p * rowHeight p"

definition lastRowIndex :: "ScrollHookProps \<Rightarrow> scroll_state \<Rightarrow> jsnum" where
  "lastRowIndex p s = js_add (firstRowIndex s) (Fin (renderedRowsCount p))"

text \<open>
  The loop of the backward branch,
  \<open>while (scrollTopRef.current - scrollTop > bufferHeight) scrollTopRef.current -= bufferHeight\<close>.
  It need not end, so its result is optional: \<open>None\<close> is the loop that runs forever.
\<close>

partial_function (option) snap_back :: "jsnum \<Rightarrow> jsnum \<Rightarrow> jsnum \<Rightarrow> jsnum option" where
  "snap_back anchor scrollTop bh =
     (if js_gt (js_sub anchor scrollTop) bh
      then snap_back (js_sub anchor bh) scrollTop bh
      else Some anchor)"

declare snap_back.simps [code]

text \<open>
  The statements both branches of \<open>handleScroll\<close> run once the anchor is set: compute the
  first row from the anchor, and publish it, or \<open>dataRowCount - renderedRowsCount\<close> when
  the rendered rows would pass the end of the data.
\<close>

definition publish_firstRowIndex :: "ScrollHookProps \<Rightarrow> jsnum \<Rightarrow> scroll_state \<Rightarrow> scroll_state" where
  "publish_firstRowIndex p anchor s =
     (let first = js_max (Fin 0)
                    (js_sub (js_floor_div anchor (Fin (rowHeight p))) (Fin (bufferCount p)))
      in s\<lparr>scrollTopRef := anchor,
            firstRowIndex :=
              (if js_gt (js_add first (Fin (renderedRowsCount p))) (Fin (dataRowCount p))
               then Fin (dataRowCount p - renderedRowsCount p)
               else first)\<rparr>)"

text \<open>The last statement of \<open>handleScroll\<close>: mirror the scroll position onto the table.\<close>

definition sync_table :: "int \<Rightarrow> int \<Rightarrow> scroll_state \<Rightarrow> scroll_state" where
  "sync_table scrollLeft scrollTop s =
     (case table s of None \<Rightarrow> s | Some _ \<Rightarrow> s\<lparr>table := Some (scrollLeft, scrollTop)\<rparr>)"

definition handleScroll :: "ScrollHookProps \<Rightarrow> scroll_state \<Rightarrow> int \<times> int \<Rightarrow> scroll_state option" where
  "handleScroll p s e =
     (case e of (scrollLeft, scrollTop) \<Rightarrow>
        (let scrolledBy = js_sub (Fin scrollTop) (scrollTopRef s);
             isForwards = js_gt scrolledBy (Fin 0)
         in if isForwards \<and>
               (js_gt (js_abs scrolledBy) (Fin (bufferHeight p)) \<or> scrollTop < bufferHeight p)
            then Some (sync_table scrollLeft scrollTop
                   (publish_firstRowIndex p
                      (js_mul (js_floor_div (Fin scrollTop) (Fin (bufferHeight p)))
                         (Fin (bufferHeight p))) s))
            else if \<not> isForwards \<and>
               (js_gt (js_abs scrolledBy) (Fin (bufferHeight p)) \<or> scrollTop < bufferHeight p)
            then (case snap_back (scrollTopRef s) (Fin scrollTop) (Fin (bufferHeight p)) of
                    None \<Rightarrow> None
                  | Some anchor \<Rightarrow>
                      Some (sync_table scrollLeft scrollTop (publish_firstRowIndex p anchor s)))
            else Some (sync_table scrollLeft scrollTop s)))"

section \<open>Arrays: reading after writing\<close>

lemma js_get_js_set: "js_get (js_set xs i v) j = (if i = j \<and> 0 \<le> i then Some v else js_get xs j)"
  by (auto simp: js_get_def js_set_def nth_append nth_list_update)

lemma length_js_set: "0 \<le> i \<Longrightarrow> i < int (length xs) \<Longrightarrow> length (js_set xs i v) = length xs"
  by (simp add: js_set_def)

lemma length_js_set_le: "i < n \<Longrightarrow> int (length xs) \<le> n \<Longrightarrow> int (length (js_set xs i v)) \<le> n"
  by (auto simp: js_set_def)

lemma js_get_replicate: "js_get (replicate n None) j = None"
  by (auto simp: js_get_def)

lemma getAtIndex_Some: "getAtIndex w k = Some r \<longleftrightarrow> isWithin (wrange w) k \<and> js_get (data w) (k - range_from (wrange w)) = Some r"
  by (auto simp: getAtIndex_def)

lemma getAtIndex_None: "getAtIndex w k = None \<longleftrightarrow> \<not> isWithin (wrange w) k \<or> js_get (data w) (k - range_from (wrange w)) = None"
  by (auto simp: getAtIndex_def)

lemma js_get_copy_overlap:
  "f \<le> i \<Longrightarrow> js_get (copy_overlap w f i b nd) j =
     (if i \<le> j + f \<and> j + f < b
      then (case getAtIndex w (j + f) of Some d \<Rightarrow> Some d | None \<Rightarrow> js_get nd j)
      else js_get nd j)"
proof (induction w f i b nd rule: copy_overlap.induct)
  case (1 w f i b nd)
  show ?case
  proof (cases "i < b")
    case False
    then show ?thesis by (subst copy_overlap.simps) auto
  next
    case True
    have fi: "f \<le> i + 1" using "1.prems" by simp
    let ?nd = "(case getAtIndex w i of Some d \<Rightarrow> js_set nd (i - f) d | None \<Rightarrow> nd)"
    have step: "copy_overlap w f i b nd = copy_overlap w f (i + 1) b ?nd"
      using True by (subst copy_overlap.simps) simp
    have nd: "js_get ?nd j = (if j + f = i then (case getAtIndex w i of Some d \<Rightarrow> Some d | None \<Rightarrow> js_get nd j) else js_get nd j)"
      using "1.prems" by (auto simp: js_get_js_set split: option.splits)
    have ih: "js_get (copy_overlap w f (i + 1) b ?nd) j =
       (if i + 1 \<le> j + f \<and> j + f < b
        then (case getAtIndex w (j + f) of Some d \<Rightarrow> Some d | None \<Rightarrow> js_get ?nd j)
        else js_get ?nd j)"
      by (rule "1.IH"[OF True fi])
    show ?thesis
    proof (cases "j + f = i")
      case eq: True
      then show ?thesis using True unfolding step ih nd by (simp split: option.splits)
    next
      case neq: False
      have "(i + 1 \<le> j + f) = (i \<le> j + f)" using neq by arith
      then show ?thesis using neq unfolding step ih nd by simp
    qed
  qed
qed

lemma length_copy_overlap:
  "f \<le> i \<Longrightarrow> b \<le> f + int (length nd) \<Longrightarrow> length (copy_overlap w f i b nd) = length nd"
proof (induction w f i b nd rule: copy_overlap.induct)
  case (1 w f i b nd)
  show ?case
  proof (cases "i < b")
    case False
    then show ?thesis by (subst copy_overlap.simps) simp
  next
    case True
    let ?nd = "(case getAtIndex w i of Some d \<Rightarrow> js_set nd (i - f) d | None \<Rightarrow> nd)"
    have len: "length ?nd = length nd"
      using True "1.prems" by (auto simp: length_js_set split: option.splits)
    have "length (copy_overlap w f (i + 1) b ?nd) = length ?nd"
      using "1.IH"[OF True] "1.prems" len by simp
    then show ?thesis using True len by (subst copy_overlap.simps) simp
  qed
qed

section \<open>The slot-index invariant is preserved\<close>

lemma slot_index_invD:
  assumes inv: "slot_index_inv w" and g: "js_get (data w) i = Some r"
  shows "row_index r = range_from (wrange w) + i"
proof -
  from g have b: "0 \<le> i" "nat i < length (data w)" and v: "data w ! nat i = Some r"
    by (auto simp: js_get_def split: if_splits)
  have "(nat i, data w ! nat i) \<in> set (enumerate 0 (data w))"
    using b by (simp add: in_set_enumerate_eq)
  with inv have "case data w ! nat i of None \<Rightarrow> True
     | Some r \<Rightarrow> row_index r = range_from (wrange w) + int (nat i)"
    unfolding slot_index_inv_def list_all_iff by fastforce
  with v b show ?thesis by simp
qed

lemma slot_index_invI:
  assumes h: "\<And>i r. js_get (data w) i = Some r \<Longrightarrow> row_index r = range_from (wrange w) + i"
  shows "slot_index_inv w"
  unfolding slot_index_inv_def list_all_iff
proof (intro ballI)
  fix p assume pin: "p \<in> set (enumerate 0 (data w))"
  then have i: "fst p < length (data w)" and v: "data w ! fst p = snd p"
    by (simp_all add: in_set_enumerate_eq)
  show "case p of (i, slot) \<Rightarrow> (case slot of None \<Rightarrow> True
           | Some r \<Rightarrow> row_index r = range_from (wrange w) + int i)"
  proof (cases "snd p")
    case None
    then show ?thesis by (simp add: case_prod_beta)
  next
    case (Some r)
    then have "js_get (data w) (int (fst p)) = Some r" using i v by (simp add: js_get_def)
    then have "row_index r = range_from (wrange w) + int (fst p)" by (rule h)
    then show ?thesis using Some by (simp add: case_prod_beta)
  qed
qed

lemma slot_index_inv_getAtIndex:
  assumes "slot_index_inv w" and "getAtIndex w k = Some r"
  shows "row_index r = k"
proof -
  from assms(2) have "js_get (data w) (k - range_from (wrange w)) = Some r"
    by (simp add: getAtIndex_Some)
  from slot_index_invD[OF assms(1) this] show ?thesis by simp
qed

lemma slot_index_inv_new:
  assumes "MovingWindow_new from' to' = Inr w"
  shows "slot_index_inv w"
proof (rule slot_index_invI)
  fix i r assume g: "js_get (data w) i = Some r"
  from assms have "data w = replicate (nat (to' - from')) None"
    by (auto simp: MovingWindow_new_def new_Array_def split: if_splits)
  with g show "row_index r = range_from (wrange w) + i" by (simp add: js_get_replicate)
qed

lemma slot_index_inv_add:
  assumes inv: "slot_index_inv w"
  shows "slot_index_inv (add w row)"
proof (cases "isWithinRange w (row_index row)")
  case False
  then show ?thesis using inv by (simp add: add_def)
next
  case True
  have eq: "add w row = w\<lparr>data := js_set (data w) (row_index row - range_from (wrange w)) row\<rparr>"
    using True by (simp add: add_def)
  show ?thesis
  proof (rule slot_index_invI)
    fix i r assume g: "js_get (data (add w row)) i = Some r"
    show "row_index r = range_from (wrange (add w row)) + i"
    proof (cases "row_index row - range_from (wrange w) = i \<and> 0 \<le> row_index row - range_from (wrange w)")
      case True
      then have "r = row" using g by (simp add: eq js_get_js_set)
      then show ?thesis using True by (simp add: eq)
    next
      case False
      then have "js_get (data w) i = Some r" using g by (auto simp: eq js_get_js_set)
      from slot_index_invD[OF inv this] show ?thesis by (simp add: eq)
    qed
  qed
qed

lemma js_get_take: "js_get (take n xs) i = (if i < int n then js_get xs i else None)"
  by (auto simp: js_get_def)

lemma setRowCount_Inr:
  assumes "setRowCount w n = Inr w'"
  shows "w' = w\<lparr>data := take (nat n) (data w), rowCount := n\<rparr>"
proof (cases "n < int (length (data w))")
  case True
  then show ?thesis using assms
    by (auto simp: setRowCount_def set_length_def split: if_splits)
next
  case False
  then have "take (nat n) (data w) = data w" by simp
  then show ?thesis using assms False by (simp add: setRowCount_def)
qed

lemma slot_index_inv_setRowCount:
  assumes inv: "slot_index_inv w" and s: "setRowCount w n = Inr w'"
  shows "slot_index_inv w'"
proof (rule slot_index_invI)
  fix i r assume g: "js_get (data w') i = Some r"
  have w': "w' = w\<lparr>data := take (nat n) (data w), rowCount := n\<rparr>"
    by (rule setRowCount_Inr[OF s])
  from g have "js_get (data w) i = Some r"
    by (simp add: w' js_get_take split: if_splits)
  from slot_index_invD[OF inv this] show "row_index r = range_from (wrange w') + i"
    by (simp add: w')
qed

lemma slot_index_inv_setRange:
  assumes inv: "slot_index_inv w" and s: "setRange w from' to' = Inr w'"
  shows "slot_index_inv w'"
proof (cases "from' \<noteq> range_from (wrange w) \<or> to' \<noteq> range_to (wrange w)")
  case False
  with s inv show ?thesis by (simp add: setRange_def)
next
  case True
  let ?copy = "\<lambda>nd. w\<lparr>data := copy_overlap w from' (max from' (range_from (wrange w)))
                 (min to' (range_to (wrange w))) nd,
               wrange := \<lparr>range_from = from', range_to = to'\<rparr>\<rparr>"
  from s True
  have c: "(case new_Array (to' - from') of Inl e \<Rightarrow> Inl e | Inr nd \<Rightarrow> Inr (?copy nd)) = Inr w'"
    unfolding setRange_def overlap_def by simp
  then obtain nd where nd: "new_Array (to' - from') = Inr nd" and w': "w' = ?copy nd"
    by (cases "new_Array (to' - from')") simp_all
  have empty: "js_get nd j = None" for j
    using nd by (auto simp: new_Array_def js_get_replicate split: if_splits)
  show ?thesis
  proof (rule slot_index_invI)
    fix i r assume g: "js_get (data w') i = Some r"
    have dw: "data w' = copy_overlap w from' (max from' (range_from (wrange w)))
                 (min to' (range_to (wrange w))) nd"
      by (simp add: w')
    have "js_get (data w') i =
       (if max from' (range_from (wrange w)) \<le> i + from' \<and> i + from' < min to' (range_to (wrange w))
        then (case getAtIndex w (i + from') of Some d \<Rightarrow> Some d | None \<Rightarrow> js_get nd i)
        else js_get nd i)"
      unfolding dw by (rule js_get_copy_overlap) simp
    with g have "getAtIndex w (i + from') = Some r"
      unfolding empty by (cases "getAtIndex w (i + from')") (simp_all split: if_splits)
    then have "row_index r = i + from'" using inv by (rule slot_index_inv_getAtIndex[rotated])
    then show "row_index r = range_from (wrange w') + i" by (simp add: w')
  qed
qed

lemma reachable_slot_index_inv: "reachable w \<Longrightarrow> slot_index_inv w"
proof (induction rule: reachable.induct)
  case (reach_new from' to' w)
  then show ?case by (rule slot_index_inv_new)
next
  case (reach_add w row)
  then show ?case by (simp add: slot_index_inv_add)
next
  case (reach_setRange w from' to' w')
  then show ?case using slot_index_inv_setRange by blast
next
  case (reach_setRowCount w n w')
  then show ?case using slot_index_inv_setRowCount by blast
qed

section \<open>What \<open>setRange\<close> computes\<close>

lemma setRange_changed:
  assumes ch: "from' \<noteq> range_from (wrange w) \<or> to' \<noteq> range_to (wrange w)"
  shows "setRange w from' to' =
     (case new_Array (to' - from') of
        Inl e \<Rightarrow> Inl e
      | Inr nd \<Rightarrow>
          Inr (w\<lparr>data := copy_overlap w from' (max from' (range_from (wrange w)))
                          (min to' (range_to (wrange w))) nd,
                 wrange := \<lparr>range_from = from', range_to = to'\<rparr>\<rparr>))"
  using ch unfolding setRange_def overlap_def by simp

lemma setRange_same:
  "from' = range_from (wrange w) \<Longrightarrow> to' = range_to (wrange w) \<Longrightarrow> setRange w from' to' = Inr w"
  by (simp add: setRange_def)

lemma js_get_setRange:
  assumes ch: "f2 \<noteq> range_from (wrange w) \<or> t2 \<noteq> range_to (wrange w)"
    and s: "setRange w f2 t2 = Inr w'"
  shows "js_get (data w') j =
     (if max f2 (range_from (wrange w)) \<le> j + f2 \<and> j + f2 < min t2 (range_to (wrange w))
      then getAtIndex w (j + f2) else None)"
proof -
  let ?copy = "\<lambda>nd. w\<lparr>data := copy_overlap w f2 (max f2 (range_from (wrange w)))
                 (min t2 (range_to (wrange w))) nd,
               wrange := \<lparr>range_from = f2, range_to = t2\<rparr>\<rparr>"
  from s have c: "(case new_Array (t2 - f2) of Inl e \<Rightarrow> Inl e | Inr nd \<Rightarrow> Inr (?copy nd)) = Inr w'"
    unfolding setRange_changed[OF ch] .
  then obtain nd where nd: "new_Array (t2 - f2) = Inr nd" and w': "w' = ?copy nd"
    by (cases "new_Array (t2 - f2)") simp_all
  have empty: "js_get nd j = None" for j
    using nd by (auto simp: new_Array_def js_get_replicate split: if_splits)
  have dw: "data w' = copy_overlap w f2 (max f2 (range_from (wrange w)))
                 (min t2 (range_to (wrange w))) nd"
    by (simp add: w')
  have "js_get (data w') j =
     (if max f2 (range_from (wrange w)) \<le> j + f2 \<and> j + f2 < min t2 (range_to (wrange w))
      then (case getAtIndex w (j + f2) of Some d \<Rightarrow> Some d | None \<Rightarrow> js_get nd j)
      else js_get nd j)"
    unfolding dw by (rule js_get_copy_overlap) simp
  then show ?thesis unfolding empty by (simp split: option.splits)
qed

lemma setRange_Inr_range:
  assumes ch: "f2 \<noteq> range_from (wrange w) \<or> t2 \<noteq> range_to (wrange w)"
    and s: "setRange w f2 t2 = Inr w'"
  shows "wrange w' = \<lparr>range_from = f2, range_to = t2\<rparr>" and "rowCount w' = rowCount w"
    and "int (length (data w')) = t2 - f2"
proof -
  let ?copy = "\<lambda>nd. w\<lparr>data := copy_overlap w f2 (max f2 (range_from (wrange w)))
                 (min t2 (range_to (wrange w))) nd,
               wrange := \<lparr>range_from = f2, range_to = t2\<rparr>\<rparr>"
  from s have c: "(case new_Array (t2 - f2) of Inl e \<Rightarrow> Inl e | Inr nd \<Rightarrow> Inr (?copy nd)) = Inr w'"
    unfolding setRange_changed[OF ch] .
  then obtain nd where nd: "new_Array (t2 - f2) = Inr nd" and w': "w' = ?copy nd"
    by (cases "new_Array (t2 - f2)") simp_all
  show "wrange w' = \<lparr>range_from = f2, range_to = t2\<rparr>" by (simp add: w')
  show "rowCount w' = rowCount w" by (simp add: w')
  have len: "int (length nd) = t2 - f2"
    using nd by (auto simp: new_Array_def split: if_splits)
  have "length (copy_overlap w f2 (max f2 (range_from (wrange w)))
                 (min t2 (range_to (wrange w))) nd) = length nd"
    by (rule length_copy_overlap) (use len in simp_all)
  then show "int (length (data w')) = t2 - f2" using len by (simp add: w')
qed

lemma setRange_succeeds:
  assumes "0 \<le> t2 - f2" and "t2 - f2 < 2 ^ 32"
  shows "\<exists>w'. setRange w f2 t2 = Inr w'"
  using assms by (simp add: setRange_def overlap_def new_Array_def)

section \<open>Claims about the moving window\<close>

text \<open>
  C1 (as amended). For every window with range \<open>[f1, t1)\<close> and every call
  \<open>setRange(f2, t2)\<close>: when \<open>(f2, t2) = (f1, t1)\<close> the call changes nothing. Otherwise,
  when \<open>t2 - f2\<close> is a valid array length (\<open>0 \<le> t2 - f2 < 2^32\<close>), the call returns, the
  range is \<open>[f2, t2)\<close> afterwards, every row populated at an absolute index \<open>k\<close> of the
  intersection of the two ranges is unchanged at slot \<open>k - f2\<close> of the new buffer, and
  \<open>getAtIndex\<close> is absent at every absolute index outside the intersection.
\<close>

theorem setRange_overlap_preservation:
  "(f2 = range_from (wrange w) \<and> t2 = range_to (wrange w) \<longrightarrow> setRange w f2 t2 = Inr w) \<and>
   ((f2 \<noteq> range_from (wrange w) \<or> t2 \<noteq> range_to (wrange w)) \<and> 0 \<le> t2 - f2 \<and> t2 - f2 < 2 ^ 32 \<longrightarrow>
      (\<exists>w'. setRange w f2 t2 = Inr w' \<and>
         wrange w' = \<lparr>range_from = f2, range_to = t2\<rparr> \<and>
         (\<forall>k r. max (range_from (wrange w)) f2 \<le> k \<and> k < min (range_to (wrange w)) t2 \<and>
                js_get (data w) (k - range_from (wrange w)) = Some r \<longrightarrow>
                js_get (data w') (k - f2) = Some r \<and> getAtIndex w' k = Some r) \<and>
         (\<forall>k. \<not> (max (range_from (wrange w)) f2 \<le> k \<and> k < min (range_to (wrange w)) t2) \<longrightarrow>
                getAtIndex w' k = None)))"
proof (intro conjI impI)
  assume "f2 = range_from (wrange w) \<and> t2 = range_to (wrange w)"
  then show "setRange w f2 t2 = Inr w" by (simp add: setRange_same)
next
  assume a: "(f2 \<noteq> range_from (wrange w) \<or> t2 \<noteq> range_to (wrange w)) \<and> 0 \<le> t2 - f2 \<and> t2 - f2 < 2 ^ 32"
  then have ch: "f2 \<noteq> range_from (wrange w) \<or> t2 \<noteq> range_to (wrange w)" by blast
  from a obtain w' where s: "setRange w f2 t2 = Inr w'"
    using setRange_succeeds[of t2 f2 w] by blast
  note g = js_get_setRange[OF ch s]
  have r: "wrange w' = \<lparr>range_from = f2, range_to = t2\<rparr>"
    by (rule setRange_Inr_range(1)[OF ch s])
  have keep: "js_get (data w') (k - f2) = Some r \<and> getAtIndex w' k = Some r"
    if k: "max (range_from (wrange w)) f2 \<le> k \<and> k < min (range_to (wrange w)) t2"
      and p: "js_get (data w) (k - range_from (wrange w)) = Some r" for k r
  proof -
    from k p have old: "getAtIndex w k = Some r" by (simp add: getAtIndex_Some isWithin_def)
    have "js_get (data w') (k - f2) = Some r" using k old by (simp add: g max.commute)
    moreover have "isWithin (wrange w') k" using k by (simp add: r isWithin_def)
    ultimately show ?thesis by (simp add: getAtIndex_Some r)
  qed
  have drop: "getAtIndex w' k = None"
    if k: "\<not> (max (range_from (wrange w)) f2 \<le> k \<and> k < min (range_to (wrange w)) t2)" for k
  proof -
    have "js_get (data w') (k - f2) = None" using k by (auto simp: g)
    then show ?thesis by (simp add: getAtIndex_None r)
  qed
  show "\<exists>w'. setRange w f2 t2 = Inr w' \<and>
         wrange w' = \<lparr>range_from = f2, range_to = t2\<rparr> \<and>
         (\<forall>k r. max (range_from (wrange w)) f2 \<le> k \<and> k < min (range_to (wrange w)) t2 \<and>
                js_get (data w) (k - range_from (wrange w)) = Some r \<longrightarrow>
                js_get (data w') (k - f2) = Some r \<and> getAtIndex w' k = Some r) \<and>
         (\<forall>k. \<not> (max (range_from (wrange w)) f2 \<le> k \<and> k < min (range_to (wrange w)) t2) \<longrightarrow>
                getAtIndex w' k = None)"
    using s r keep drop by blast
qed

theorem setRange_overlap_preservation_witness:
  "\<exists>w'. setRange \<lparr>data = (replicate 10 None)[7 := Some \<lparr>row_index = 7, render_idx = 0, cells = []\<rparr>],
                   rowCount = 0, wrange = \<lparr>range_from = 0, range_to = 10\<rparr>\<rparr> 5 15 = Inr w' \<and>
        wrange w' = \<lparr>range_from = 5, range_to = 15\<rparr> \<and>
        js_get (data w') 2 = Some \<lparr>row_index = 7, render_idx = 0, cells = []\<rparr> \<and>
        getAtIndex w' 7 = Some \<lparr>row_index = 7, render_idx = 0, cells = []\<rparr> \<and>
        getAtIndex w' 12 = None"
proof -
  let ?row = "\<lparr>row_index = 7, render_idx = 0, cells = []\<rparr>"
  let ?w = "\<lparr>data = (replicate 10 None)[7 := Some ?row],
             rowCount = 0, wrange = \<lparr>range_from = 0, range_to = 10\<rparr>\<rparr>"
  have pre: "(5 \<noteq> range_from (wrange ?w) \<or> 15 \<noteq> range_to (wrange ?w)) \<and> (0::int) \<le> 15 - 5 \<and> (15::int) - 5 < 2 ^ 32"
    by simp
  from setRange_overlap_preservation[of 5 ?w 15] pre
  obtain w' where s: "setRange ?w 5 15 = Inr w'"
    and r: "wrange w' = \<lparr>range_from = 5, range_to = 15\<rparr>"
    and keep: "\<And>k r. max (range_from (wrange ?w)) 5 \<le> k \<and> k < min (range_to (wrange ?w)) 15 \<and>
                js_get (data ?w) (k - range_from (wrange ?w)) = Some r \<Longrightarrow>
                js_get (data w') (k - 5) = Some r \<and> getAtIndex w' k = Some r"
    and drop: "\<And>k. \<not> (max (range_from (wrange ?w)) 5 \<le> k \<and> k < min (range_to (wrange ?w)) 15) \<Longrightarrow>
                getAtIndex w' k = None"
    by blast
  have "js_get (data ?w) (7 - range_from (wrange ?w)) = Some ?row"
    by (simp add: js_get_def)
  then have "js_get (data w') (7 - 5) = Some ?row \<and> getAtIndex w' 7 = Some ?row"
    by (intro keep) simp
  moreover have "getAtIndex w' 12 = None" by (rule drop) simp
  ultimately show ?thesis using s r by simp
qed

text \<open>
  C1 as stated fails for an inverted range: \<open>new Array(to - from)\<close> throws when
  \<open>to < from\<close>, so the call does not return and the range is not updated.
\<close>

theorem setRange_inverted_range_counterexample:
  "setRange \<lparr>data = replicate 10 None, rowCount = 0,
             wrange = \<lparr>range_from = 0, range_to = 10\<rparr>\<rparr> 5 3 = Inl RangeError"
  by (simp add: setRange_def overlap_def new_Array_def)

text \<open>
  C3 (as amended). After \<open>add\<close> the buffer's length equals \<open>range.to - range.from\<close>
  whenever it did before the call. After a \<open>setRange\<close> that returns, it does whenever the
  range changed or it did before the call. After a \<open>setRowCount(n)\<close> that returns, the
  range is unchanged and the length is the smaller of the old length and \<open>n\<close>: the
  buffer is truncated below \<open>range.to - range.from\<close> when \<open>n\<close> is smaller than that.
\<close>

theorem buffer_length_after_mutation:
  "(length_inv w \<longrightarrow> length_inv (add w row)) \<and>
   (setRange w f t = Inr w1 \<and>
      (f \<noteq> range_from (wrange w) \<or> t \<noteq> range_to (wrange w) \<or> length_inv w) \<longrightarrow>
      length_inv w1) \<and>
   (setRowCount w n = Inr w2 \<longrightarrow>
      int (length (data w2)) = min (int (length (data w))) n \<and> wrange w2 = wrange w)"
proof (intro conjI impI)
  assume inv: "length_inv w"
  show "length_inv (add w row)"
  proof (cases "isWithinRange w (row_index row)")
    case False
    then show ?thesis using inv by (simp add: add_def)
  next
    case True
    then have "0 \<le> row_index row - range_from (wrange w)"
      and "row_index row - range_from (wrange w) < int (length (data w))"
      using inv by (simp_all add: isWithinRange_def isWithin_def length_inv_def)
    then have "length (js_set (data w) (row_index row - range_from (wrange w)) row) = length (data w)"
      by (rule length_js_set)
    then show ?thesis using True inv by (simp add: add_def length_inv_def)
  qed
next
  assume a: "setRange w f t = Inr w1 \<and>
      (f \<noteq> range_from (wrange w) \<or> t \<noteq> range_to (wrange w) \<or> length_inv w)"
  show "length_inv w1"
  proof (cases "f \<noteq> range_from (wrange w) \<or> t \<noteq> range_to (wrange w)")
    case True
    from a have s: "setRange w f t = Inr w1" by blast
    show ?thesis
      using setRange_Inr_range(1)[OF True s] setRange_Inr_range(3)[OF True s]
      by (simp add: length_inv_def)
  next
    case False
    then have "w1 = w" using a by (simp add: setRange_def)
    then show ?thesis using a False by blast
  qed
next
  assume s: "setRowCount w n = Inr w2"
  have w2: "w2 = w\<lparr>data := take (nat n) (data w), rowCount := n\<rparr>"
    by (rule setRowCount_Inr[OF s])
  have "0 \<le> n"
    using s by (auto simp: setRowCount_def set_length_def split: if_splits)
  then show "int (length (data w2)) = min (int (length (data w))) n"
    by (auto simp: w2 min_def)
  show "wrange w2 = wrange w" by (simp add: w2)
qed

theorem buffer_length_after_mutation_witness:
  "length_inv (add \<lparr>data = replicate 10 None, rowCount = 0,
                     wrange = \<lparr>range_from = 0, range_to = 10\<rparr>\<rparr>
                   \<lparr>row_index = 3, render_idx = 0, cells = []\<rparr>) \<and>
   length_inv \<lparr>data = replicate 10 None, rowCount = 0,
               wrange = \<lparr>range_from = 5, range_to = 15\<rparr>\<rparr> \<and>
   int (length (replicate 5 (None :: DataSourceRow option))) = min (int (length (replicate 10 (None :: DataSourceRow option)))) 5"
proof -
  let ?w = "\<lparr>data = replicate 10 None, rowCount = 0,
             wrange = \<lparr>range_from = 0, range_to = 10\<rparr>\<rparr>"
  let ?w1 = "\<lparr>data = replicate 10 None, rowCount = 0,
              wrange = \<lparr>range_from = 5, range_to = 15\<rparr>\<rparr>"
  let ?w2 = "\<lparr>data = replicate 5 None, rowCount = 5,
              wrange = \<lparr>range_from = 0, range_to = 10\<rparr>\<rparr>"
  have i: "length_inv ?w" by (simp add: length_inv_def)
  have s1: "setRange ?w 5 15 = Inr ?w1"
    by (simp add: setRange_def overlap_def new_Array_def copy_overlap.simps getAtIndex_def
        js_get_def isWithin_def)
  have s2: "setRowCount ?w 5 = Inr ?w2"
    by (simp add: setRowCount_def set_length_def)
  from buffer_length_after_mutation[of ?w "\<lparr>row_index = 3, render_idx = 0, cells = []\<rparr>" 5 15 ?w1 5 ?w2]
    i s1 s2
  show ?thesis by simp
qed

text \<open>
  C3 as stated fails for \<open>setRowCount\<close>: on a window over \<open>[0, 10)\<close> with a buffer of
  length 10, \<open>setRowCount(5)\<close> truncates the buffer to length 5 and leaves the range alone.
\<close>

theorem setRowCount_breaks_length_counterexample:
  "length_inv \<lparr>data = replicate 10 None, rowCount = 0,
               wrange = \<lparr>range_from = 0, range_to = 10\<rparr>\<rparr> \<and>
   setRowCount \<lparr>data = replicate 10 None, rowCount = 0,
                wrange = \<lparr>range_from = 0, range_to = 10\<rparr>\<rparr> 5 =
     Inr \<lparr>data = replicate 5 None, rowCount = 5,
          wrange = \<lparr>range_from = 0, range_to = 10\<rparr>\<rparr> \<and>
   \<not> length_inv \<lparr>data = replicate 5 None, rowCount = 5,
                 wrange = \<lparr>range_from = 0, range_to = 10\<rparr>\<rparr>"
  by (simp add: length_inv_def setRowCount_def set_length_def)

text \<open>
  C7. For every window state and every row whose index field lies outside
  \<open>[range.from, range.to)\<close>, \<open>add(row)\<close> leaves the whole window state (buffer, range
  and rowCount) unchanged; \<open>add\<close> has no error result at all.
\<close>

theorem add_out_of_range_noop:
  "\<not> isWithin (wrange w) (row_index row) \<Longrightarrow> add w row = w"
  by (simp add: add_def isWithinRange_def)

theorem add_out_of_range_noop_witness:
  "\<not> isWithin \<lparr>range_from = 10, range_to = 20\<rparr> 25 \<and>
   add \<lparr>data = replicate 10 None, rowCount = 40,
        wrange = \<lparr>range_from = 10, range_to = 20\<rparr>\<rparr>
       \<lparr>row_index = 25, render_idx = 3, cells = [''x'']\<rparr> =
     \<lparr>data = replicate 10 None, rowCount = 40,
      wrange = \<lparr>range_from = 10, range_to = 20\<rparr>\<rparr>"
proof -
  have h: "\<not> isWithin (wrange \<lparr>data = replicate 10 None, rowCount = 40,
        wrange = \<lparr>range_from = 10, range_to = 20\<rparr>\<rparr>) (row_index \<lparr>row_index = 25, render_idx = 3, cells = [''x'']\<rparr>)"
    by (simp add: isWithin_def)
  from add_out_of_range_noop[OF h] h show ?thesis by simp
qed

text \<open>
  C8. \<open>add\<close> files a row under the index it carries in field 0, so in every reachable
  window state every populated slot \<open>i\<close> holds a row whose index field is
  \<open>range.from + i\<close>; hence a row returned by \<open>getAtIndex(k)\<close> has index field \<open>k\<close>.
\<close>

theorem slot_index_invariant:
  "reachable w \<Longrightarrow>
     slot_index_inv w \<and> (\<forall>k r. getAtIndex w k = Some r \<longrightarrow> row_index r = k)"
  using reachable_slot_index_inv slot_index_inv_getAtIndex by blast

theorem slot_index_invariant_witness:
  "reachable (add \<lparr>data = replicate 3 None, rowCount = 0,
                    wrange = \<lparr>range_from = 4, range_to = 7\<rparr>\<rparr>
                  \<lparr>row_index = 5, render_idx = 0, cells = []\<rparr>) \<and>
   slot_index_inv (add \<lparr>data = replicate 3 None, rowCount = 0,
                    wrange = \<lparr>range_from = 4, range_to = 7\<rparr>\<rparr>
                  \<lparr>row_index = 5, render_idx = 0, cells = []\<rparr>) \<and>
   getAtIndex (add \<lparr>data = replicate 3 None, rowCount = 0,
                    wrange = \<lparr>range_from = 4, range_to = 7\<rparr>\<rparr>
                  \<lparr>row_index = 5, render_idx = 0, cells = []\<rparr>) 5 =
     Some \<lparr>row_index = 5, render_idx = 0, cells = []\<rparr>"
proof -
  let ?w0 = "\<lparr>data = replicate 3 None, rowCount = 0,
              wrange = \<lparr>range_from = 4, range_to = 7\<rparr>\<rparr>"
  let ?row = "\<lparr>row_index = 5, render_idx = 0, cells = []\<rparr>"
  have "MovingWindow_new 4 7 = Inr ?w0"
    by (simp add: MovingWindow_new_def new_Array_def)
  then have "reachable ?w0" by (rule reach_new)
  then have r: "reachable (add ?w0 ?row)" by (rule reach_add)
  have g: "getAtIndex (add ?w0 ?row) 5 = Some ?row"
    by (simp add: add_def isWithinRange_def isWithin_def getAtIndex_def js_get_js_set)
  from slot_index_invariant[OF r] r g show ?thesis by simp
qed

text \<open>
  C10. \<open>add\<close> never modifies the range or rowCount, \<open>setRange\<close> never modifies
  rowCount, and \<open>setRowCount\<close> never modifies the range.
\<close>

theorem operations_frame:
  "wrange (add w row) = wrange w \<and> rowCount (add w row) = rowCount w \<and>
   (setRange w f t = Inr w1 \<longrightarrow> rowCount w1 = rowCount w) \<and>
   (setRowCount w n = Inr w2 \<longrightarrow> wrange w2 = wrange w)"
proof (intro conjI impI)
  show "wrange (add w row) = wrange w" by (simp add: add_def Let_def)
  show "rowCount (add w row) = rowCount w" by (simp add: add_def Let_def)
next
  assume s: "setRange w f t = Inr w1"
  show "rowCount w1 = rowCount w"
  proof (cases "f \<noteq> range_from (wrange w) \<or> t \<noteq> range_to (wrange w)")
    case True
    then show ?thesis using s by (rule setRange_Inr_range(2))
  next
    case False
    then show ?thesis using s by (simp add: setRange_def)
  qed
next
  assume s: "setRowCount w n = Inr w2"
  show "wrange w2 = wrange w" by (simp add: setRowCount_Inr[OF s])
qed

theorem operations_frame_witness:
  "wrange (add \<lparr>data = replicate 10 None, rowCount = 7,
                 wrange = \<lparr>range_from = 0, range_to = 10\<rparr>\<rparr>
               \<lparr>row_index = 3, render_idx = 0, cells = []\<rparr>) =
     \<lparr>range_from = 0, range_to = 10\<rparr> \<and>
   rowCount (add \<lparr>data = replicate 10 None, rowCount = 7,
                   wrange = \<lparr>range_from = 0, range_to = 10\<rparr>\<rparr>
                 \<lparr>row_index = 3, render_idx = 0, cells = []\<rparr>) = 7 \<and>
   setRange \<lparr>data = replicate 10 None, rowCount = 7,
             wrange = \<lparr>range_from = 0, range_to = 10\<rparr>\<rparr> 5 15 =
     Inr \<lparr>data = replicate 10 None, rowCount = 7,
          wrange = \<lparr>range_from = 5, range_to = 15\<rparr>\<rparr> \<and>
   setRowCount \<lparr>data = replicate 10 None, rowCount = 7,
                wrange = \<lparr>range_from = 0, range_to = 10\<rparr>\<rparr> 5 =
     Inr \<lparr>data = replicate 5 None, rowCount = 5,
          wrange = \<lparr>range_from = 0, range_to = 10\<rparr>\<rparr>"
proof -
  let ?w = "\<lparr>data = replicate 10 None, rowCount = 7,
             wrange = \<lparr>range_from = 0, range_to = 10\<rparr>\<rparr>"
  let ?w1 = "\<lparr>data = replicate 10 None, rowCount = 7,
              wrange = \<lparr>range_from = 5, range_to = 15\<rparr>\<rparr>"
  let ?w2 = "\<lparr>data = replicate 5 None, rowCount = 5,
              wrange = \<lparr>range_from = 0, range_to = 10\<rparr>\<rparr>"
  have s1: "setRange ?w 5 15 = Inr ?w1"
    by (simp add: setRange_def overlap_def new_Array_def copy_overlap.simps getAtIndex_def
        js_get_def isWithin_def)
  have s2: "setRowCount ?w 5 = Inr ?w2"
    by (simp add: setRowCount_def set_length_def)
  from operations_frame[of ?w "\<lparr>row_index = 3, render_idx = 0, cells = []\<rparr>" 5 15 ?w1 5 ?w2]
    s1 s2
  show ?thesis by simp
qed

section \<open>Claims about the viewport controller\<close>

lemma foldl_setData:
  "foldl setData c bs =
     (if bs = [] then c
      else c\<lparr>dataWindow := foldl add (dataWindow c) (concat bs),
             data_current := slice_sort_byKey (data (foldl add (dataWindow c) (concat bs))),
             hasUpdated := True\<rparr>)"
proof (induction bs rule: rev_induct)
  case Nil
  show ?case by simp
next
  case (snoc b bs)
  show ?case
  proof (cases "bs = []")
    case True
    then show ?thesis by (simp add: setData_def Let_def)
  next
    case False
    have "foldl setData c (bs @ [b]) = setData (foldl setData c bs) b" by simp
    also have "\<dots> = setData (c\<lparr>dataWindow := foldl add (dataWindow c) (concat bs),
             data_current := slice_sort_byKey (data (foldl add (dataWindow c) (concat bs))),
             hasUpdated := True\<rparr>) b"
      using False by (simp only: snoc.IH if_False)
    also have "\<dots> = c\<lparr>dataWindow := foldl add (dataWindow c) (concat (bs @ [b])),
             data_current := slice_sort_byKey (data (foldl add (dataWindow c) (concat (bs @ [b])))),
             hasUpdated := True\<rparr>"
      by (simp add: setData_def Let_def)
    finally show ?thesis by simp
  qed
qed

lemma hasUpdated_handler:
  "hasUpdated c \<Longrightarrow> hasUpdated (snd (datasourceMessageHandler c m))"
  by (simp add: datasourceMessageHandler_def setData_def Let_def
      split: option.splits sum.splits prod.splits)

text \<open>
  C2 (as amended). A \<open>viewport-update\<close> message that carries neither a rows array nor
  a numeric size leaves the controller exactly as it was: nothing is re-sorted and the
  dirty flag is not set. The refresh the claim describes is what the handler does for a
  \<open>viewport-update\<close> that carries a numeric size and no rows: once \<open>onSizeChange\<close> and
  \<open>setRowCount\<close> have run, it re-sorts and republishes the buffer and sets the dirty flag.
\<close>

theorem handler_viewport_update_without_rows:
  "(msg_type m = ''viewport-update'' \<and> msg_rows m = None \<and> msg_size m = None \<longrightarrow>
      datasourceMessageHandler c m = (None, c)) \<and>
   (msg_type m = ''viewport-update'' \<and> msg_rows m = None \<and> msg_size m = Some n \<and>
    setRowCount (dataWindow c) n = Inr w \<longrightarrow>
      datasourceMessageHandler c m =
        (None, c\<lparr>calls := calls c @ [OnSizeChange n], dataWindow := w,
                 data_current := slice_sort_byKey (data w), hasUpdated := True\<rparr>))"
  by (simp add: datasourceMessageHandler_def Let_def)

theorem handler_viewport_update_without_rows_witness:
  "datasourceMessageHandler
     \<lparr>dataWindow = \<lparr>data = [None, Some \<lparr>row_index = 1, render_idx = 0, cells = []\<rparr>, None],
                    rowCount = 3, wrange = \<lparr>range_from = 0, range_to = 3\<rparr>\<rparr>,
      data_current = [], hasUpdated = False, isMounted = True, rafPending = True,
      rangeRef = (0, 3), calls = [], renders = []\<rparr>
     \<lparr>msg_type = ''viewport-update'', msg_size = Some 2, msg_rows = None\<rparr> =
   (None,
     \<lparr>dataWindow = \<lparr>data = [None, Some \<lparr>row_index = 1, render_idx = 0, cells = []\<rparr>],
                    rowCount = 2, wrange = \<lparr>range_from = 0, range_to = 3\<rparr>\<rparr>,
      data_current = [Some \<lparr>row_index = 1, render_idx = 0, cells = []\<rparr>, None],
      hasUpdated = True, isMounted = True, rafPending = True,
      rangeRef = (0, 3), calls = [OnSizeChange 2], renders = []\<rparr>) \<and>
   datasourceMessageHandler
     \<lparr>dataWindow = \<lparr>data = [None, Some \<lparr>row_index = 1, render_idx = 0, cells = []\<rparr>, None],
                    rowCount = 3, wrange = \<lparr>range_from = 0, range_to = 3\<rparr>\<rparr>,
      data_current = [], hasUpdated = False, isMounted = True, rafPending = True,
      rangeRef = (0, 3), calls = [], renders = []\<rparr>
     \<lparr>msg_type = ''viewport-update'', msg_size = None, msg_rows = None\<rparr> =
   (None,
     \<lparr>dataWindow = \<lparr>data = [None, Some \<lparr>row_index = 1, render_idx = 0, cells = []\<rparr>, None],
                    rowCount = 3, wrange = \<lparr>range_from = 0, range_to = 3\<rparr>\<rparr>,
      data_current = [], hasUpdated = False, isMounted = True, rafPending = True,
      rangeRef = (0, 3), calls = [], renders = []\<rparr>)"
proof -
  let ?row = "\<lparr>row_index = 1, render_idx = 0, cells = []\<rparr>"
  let ?w = "\<lparr>data = [None, Some ?row, None], rowCount = 3,
             wrange = \<lparr>range_from = 0, range_to = 3\<rparr>\<rparr>"
  let ?w2 = "\<lparr>data = [None, Some ?row], rowCount = 2,
              wrange = \<lparr>range_from = 0, range_to = 3\<rparr>\<rparr>"
  let ?c = "\<lparr>dataWindow = ?w, data_current = [], hasUpdated = False, isMounted = True,
             rafPending = True, rangeRef = (0, 3), calls = [], renders = []\<rparr>"
  let ?m1 = "\<lparr>msg_type = ''viewport-update'', msg_size = Some 2, msg_rows = None\<rparr>"
  let ?m2 = "\<lparr>msg_type = ''viewport-update'', msg_size = None, msg_rows = None\<rparr>"
  have s: "setRowCount (dataWindow ?c) 2 = Inr ?w2"
    by (simp add: setRowCount_def set_length_def)
  have sorted: "slice_sort_byKey (data ?w2) = [Some ?row, None]"
    by (simp add: slice_sort_byKey_def)
  from handler_viewport_update_without_rows[where m = ?m1 and n = 2 and c = ?c and w = ?w2] s
  have "datasourceMessageHandler ?c ?m1 =
      (None, ?c\<lparr>calls := calls ?c @ [OnSizeChange 2], dataWindow := ?w2,
                 data_current := slice_sort_byKey (data ?w2), hasUpdated := True\<rparr>)"
    by simp
  moreover from handler_viewport_update_without_rows[where m = ?m2 and c = ?c]
  have "datasourceMessageHandler ?c ?m2 = (None, ?c)" by simp
  ultimately show ?thesis unfolding sorted by simp
qed

text \<open>
  C2 as stated fails: on a window holding two rows, with \<open>data.current\<close> empty and the
  dirty flag clear, a \<open>viewport-update\<close> without rows and without size changes nothing.
\<close>

theorem handler_neither_rows_nor_size_counterexample:
  "datasourceMessageHandler
     \<lparr>dataWindow = \<lparr>data = [Some \<lparr>row_index = 0, render_idx = 1, cells = []\<rparr>,
                            Some \<lparr>row_index = 1, render_idx = 0, cells = []\<rparr>],
                    rowCount = 2, wrange = \<lparr>range_from = 0, range_to = 2\<rparr>\<rparr>,
      data_current = [], hasUpdated = False, isMounted = True, rafPending = True,
      rangeRef = (0, 2), calls = [], renders = []\<rparr>
     \<lparr>msg_type = ''viewport-update'', msg_size = None, msg_rows = None\<rparr> =
   (None,
     \<lparr>dataWindow = \<lparr>data = [Some \<lparr>row_index = 0, render_idx = 1, cells = []\<rparr>,
                            Some \<lparr>row_index = 1, render_idx = 0, cells = []\<rparr>],
                    rowCount = 2, wrange = \<lparr>range_from = 0, range_to = 2\<rparr>\<rparr>,
      data_current = [], hasUpdated = False, isMounted = True, rafPending = True,
      rangeRef = (0, 2), calls = [], renders = []\<rparr>)"
  by (simp add: datasourceMessageHandler_def)

text \<open>
  C9. On a mounted controller, any positive number of \<open>setData\<close> calls followed by one
  frame-clock tick adds exactly one render, of the sorted contents of the window after all
  the rows have been added in order; the tick clears the flag, so the tick after it renders
  nothing. A tick that finds the flag clear renders nothing. No operation of the hook
  clears a set flag, except a tick, and then only together with a render of
  \<open>data.current\<close>.
\<close>

theorem single_refresh_per_frame:
  "(isMounted c \<and> batches \<noteq> [] \<longrightarrow>
      renders (refreshIfUpdated (foldl setData c batches)) =
        renders c @ [slice_sort_byKey (data (foldl add (dataWindow c) (concat batches)))] \<and>
      \<not> hasUpdated (refreshIfUpdated (foldl setData c batches)) \<and>
      renders (refreshIfUpdated (refreshIfUpdated (foldl setData c batches))) =
        renders (refreshIfUpdated (foldl setData c batches))) \<and>
   (\<not> hasUpdated c \<longrightarrow> renders (refreshIfUpdated c) = renders c) \<and>
   (hasUpdated c \<longrightarrow>
      hasUpdated (setData c rows) \<and>
      hasUpdated (snd (datasourceMessageHandler c m)) \<and>
      hasUpdated (snd (controller_setRange c f t)) \<and>
      hasUpdated (unmount c) \<and>
      (hasUpdated (refreshIfUpdated c) \<or>
       renders (refreshIfUpdated c) = renders c @ [data_current c]))"
proof (intro conjI impI)
  assume a: "isMounted c \<and> batches \<noteq> []"
  then show "renders (refreshIfUpdated (foldl setData c batches)) =
        renders c @ [slice_sort_byKey (data (foldl add (dataWindow c) (concat batches)))]"
    by (simp add: foldl_setData refreshIfUpdated_def)
  from a show "\<not> hasUpdated (refreshIfUpdated (foldl setData c batches))"
    by (simp add: foldl_setData refreshIfUpdated_def)
  from a show "renders (refreshIfUpdated (refreshIfUpdated (foldl setData c batches))) =
        renders (refreshIfUpdated (foldl setData c batches))"
    by (simp add: foldl_setData refreshIfUpdated_def)
next
  assume "\<not> hasUpdated c"
  then show "renders (refreshIfUpdated c) = renders c"
    by (simp add: refreshIfUpdated_def)
next
  assume h: "hasUpdated c"
  show "hasUpdated (setData c rows)" by (simp add: setData_def Let_def)
  show "hasUpdated (snd (datasourceMessageHandler c m))" using h by (rule hasUpdated_handler)
  show "hasUpdated (snd (controller_setRange c f t))"
    using h by (simp add: controller_setRange_def Let_def split: sum.splits)
  show "hasUpdated (unmount c)" using h by (simp add: unmount_def)
  show "hasUpdated (refreshIfUpdated c) \<or>
       renders (refreshIfUpdated c) = renders c @ [data_current c]"
    using h by (simp add: refreshIfUpdated_def)
qed

theorem single_refresh_per_frame_witness:
  "renders (refreshIfUpdated (foldl setData
     \<lparr>dataWindow = \<lparr>data = [None, None, None], rowCount = 3,
                    wrange = \<lparr>range_from = 10, range_to = 13\<rparr>\<rparr>,
      data_current = [], hasUpdated = False, isMounted = True, rafPending = True,
      rangeRef = (10, 13), calls = [], renders = []\<rparr>
     [[\<lparr>row_index = 11, render_idx = 1, cells = [''a'']\<rparr>],
      [\<lparr>row_index = 12, render_idx = 0, cells = [''b'']\<rparr>,
       \<lparr>row_index = 11, render_idx = 1, cells = [''c'']\<rparr>]])) =
   [[Some \<lparr>row_index = 12, render_idx = 0, cells = [''b'']\<rparr>,
     Some \<lparr>row_index = 11, render_idx = 1, cells = [''c'']\<rparr>, None]] \<and>
   renders (refreshIfUpdated
     \<lparr>dataWindow = \<lparr>data = [None, None, None], rowCount = 3,
                    wrange = \<lparr>range_from = 10, range_to = 13\<rparr>\<rparr>,
      data_current = [], hasUpdated = False, isMounted = True, rafPending = True,
      rangeRef = (10, 13), calls = [], renders = []\<rparr>) = [] \<and>
   hasUpdated (unmount
     \<lparr>dataWindow = \<lparr>data = [None, None, None], rowCount = 3,
                    wrange = \<lparr>range_from = 10, range_to = 13\<rparr>\<rparr>,
      data_current = [], hasUpdated = True, isMounted = True, rafPending = True,
      rangeRef = (10, 13), calls = [], renders = []\<rparr>)"
proof -
  let ?w = "\<lparr>data = [None, None, None], rowCount = 3,
             wrange = \<lparr>range_from = 10, range_to = 13\<rparr>\<rparr>"
  let ?c = "\<lparr>dataWindow = ?w, data_current = [], hasUpdated = False, isMounted = True,
             rafPending = True, rangeRef = (10, 13), calls = [], renders = []\<rparr>"
  let ?d = "\<lparr>dataWindow = ?w, data_current = [], hasUpdated = True, isMounted = True,
             rafPending = True, rangeRef = (10, 13), calls = [], renders = []\<rparr>"
  let ?r1 = "\<lparr>row_index = 11, render_idx = 1, cells = [''a'']\<rparr>"
  let ?r2 = "\<lparr>row_index = 12, render_idx = 0, cells = [''b'']\<rparr>"
  let ?r3 = "\<lparr>row_index = 11, render_idx = 1, cells = [''c'']\<rparr>"
  let ?bs = "[[?r1], [?r2, ?r3]]"
  have net: "slice_sort_byKey (data (foldl add (dataWindow ?c) (concat ?bs))) =
     [Some ?r2, Some ?r3, None]"
    by (simp add: add_def isWithinRange_def isWithin_def js_set_def slice_sort_byKey_def)
  from single_refresh_per_frame[where c = ?c and batches = ?bs]
  have "renders (refreshIfUpdated (foldl setData ?c ?bs)) =
        renders ?c @ [slice_sort_byKey (data (foldl add (dataWindow ?c) (concat ?bs)))]"
    and "renders (refreshIfUpdated ?c) = renders ?c"
    by simp_all
  moreover from single_refresh_per_frame[where c = ?d]
  have "hasUpdated (unmount ?d)" by simp
  ultimately show ?thesis unfolding net by simp
qed

section \<open>Claims about the scroll translator\<close>

lemma js_le_not_gt: "js_le a b \<Longrightarrow> \<not> js_gt a b"
  by (cases a; cases b) (simp_all add: js_le_def js_ge_def)

lemma firstRowIndex_sync_table [simp]: "firstRowIndex (sync_table l t s) = firstRowIndex s"
  by (simp add: sync_table_def split: option.splits)

lemma scrollTopRef_sync_table [simp]: "scrollTopRef (sync_table l t s) = scrollTopRef s"
  by (simp add: sync_table_def split: option.splits)

lemma handleScroll_idle:
  assumes "\<not> js_gt (js_abs (js_sub (Fin scrollTop) (scrollTopRef s))) (Fin (bufferHeight p))"
    and "\<not> scrollTop < bufferHeight p"
  shows "handleScroll p s (scrollLeft, scrollTop) = Some (sync_table scrollLeft scrollTop s)"
  using assms by (simp add: handleScroll_def Let_def)

lemma handleScroll_forwards:
  assumes "js_gt (js_sub (Fin scrollTop) (scrollTopRef s)) (Fin 0)"
    and "js_gt (js_abs (js_sub (Fin scrollTop) (scrollTopRef s))) (Fin (bufferHeight p)) \<or>
         scrollTop < bufferHeight p"
  shows "handleScroll p s (scrollLeft, scrollTop) =
     Some (sync_table scrollLeft scrollTop
            (publish_firstRowIndex p
               (js_mul (js_floor_div (Fin scrollTop) (Fin (bufferHeight p)))
                  (Fin (bufferHeight p))) s))"
  using assms by (simp add: handleScroll_def Let_def)

lemma js_mul_div_zero: "js_mul (js_floor_div (Fin x) (Fin 0)) (Fin 0) = NaN"
  by (cases "x = 0"; cases "0 < x") (simp_all add: signed_inf_def)

lemma js_mul_signed_inf_zero: "js_mul (signed_inf (sgn x)) (Fin 0) = NaN"
  using js_mul_div_zero[of x] by simp

lemma publish_firstRowIndex_NaN:
  "publish_firstRowIndex p NaN s = s\<lparr>scrollTopRef := NaN, firstRowIndex := NaN\<rparr>"
  by (simp add: publish_firstRowIndex_def Let_def js_sub_def js_max_def)

lemma publish_firstRowIndex_Fin:
  assumes "rowHeight p \<noteq> 0"
  shows "publish_firstRowIndex p (Fin a) s =
     s\<lparr>scrollTopRef := Fin a,
       firstRowIndex :=
         Fin (let first = max 0 (a div rowHeight p - bufferCount p) in
              if first + renderedRowsCount p > dataRowCount p
              then dataRowCount p - renderedRowsCount p else first)\<rparr>"
  using assms by (simp add: publish_firstRowIndex_def Let_def js_sub_def js_max_def max_def)

text \<open>
  With \<open>bufferHeight = 0\<close> the loop of the backward branch never ends when the anchor
  lies above the scroll position: the test stays true and the anchor is not moved.
\<close>

lemma snap_back_zero_Some:
  assumes "snap_back anchor st bh = Some y"
  shows "\<not> (\<exists>a s. anchor = Fin a \<and> st = Fin s \<and> bh = Fin 0 \<and> s < a)"
proof (rule snap_back.raw_induct[where P = "\<lambda>anchor st bh y.
         \<not> (\<exists>a s. anchor = Fin a \<and> st = Fin s \<and> bh = Fin 0 \<and> s < a)", OF _ assms])
  fix f anchor st bh y
  assume IH: "\<And>anchor st bh y. f anchor st bh = Some y \<Longrightarrow>
           \<not> (\<exists>a s. anchor = Fin a \<and> st = Fin s \<and> bh = Fin 0 \<and> s < a)"
    and step: "(if js_gt (js_sub anchor st) bh then f (js_sub anchor bh) st bh else Some anchor) = Some y"
  show "\<not> (\<exists>a s. anchor = Fin a \<and> st = Fin s \<and> bh = Fin 0 \<and> s < a)"
  proof
    assume "\<exists>a s. anchor = Fin a \<and> st = Fin s \<and> bh = Fin 0 \<and> s < a"
    then obtain a s where e: "anchor = Fin a" "st = Fin s" "bh = Fin 0" "s < a" by blast
    with step have "f anchor st bh = Some y" by (simp add: js_sub_def)
    from IH[OF this] e show False by blast
  qed
qed

lemma snap_back_zero_diverges:
  assumes "s < a"
  shows "snap_back (Fin a) (Fin s) (Fin 0) = None"
proof (cases "snap_back (Fin a) (Fin s) (Fin 0)")
  case None
  then show ?thesis .
next
  case (Some y)
  from snap_back_zero_Some[OF this] assms show ?thesis by blast
qed

lemma handleScroll_zero_buffer_backward_diverges:
  assumes "bufferHeight p = 0" and "scrollTopRef s = Fin a" and "scrollTop < a"
  shows "handleScroll p s (scrollLeft, scrollTop) = None"
  using assms by (simp add: handleScroll_def Let_def js_sub_def snap_back_zero_diverges)

text \<open>
  The division by \<open>bufferHeight\<close> is not guarded. When \<open>bufferHeight = 0\<close>, every scroll
  event that moves forwards from a finite anchor stores \<open>NaN\<close> in the anchor and in
  \<open>firstRowIndex\<close>; once the anchor is \<open>NaN\<close>, an event with a non-negative
  \<open>scrollTop\<close> enters neither branch, so nothing is recomputed.
\<close>

lemma zero_bufferHeight_behaviour:
  assumes "bufferHeight p = 0"
  shows "(scrollTopRef s = Fin a \<and> a < scrollTop \<longrightarrow>
            handleScroll p s (scrollLeft, scrollTop) =
              Some (sync_table scrollLeft scrollTop
                     (s\<lparr>scrollTopRef := NaN, firstRowIndex := NaN\<rparr>)) \<and>
            lastRowIndex p (sync_table scrollLeft scrollTop
                     (s\<lparr>scrollTopRef := NaN, firstRowIndex := NaN\<rparr>)) = NaN) \<and>
         (scrollTopRef s = NaN \<and> 0 \<le> scrollTop \<longrightarrow>
            handleScroll p s (scrollLeft, scrollTop) = Some (sync_table scrollLeft scrollTop s))"
proof (intro conjI impI)
  assume a: "scrollTopRef s = Fin a \<and> a < scrollTop"
  have "handleScroll p s (scrollLeft, scrollTop) =
     Some (sync_table scrollLeft scrollTop
            (publish_firstRowIndex p
               (js_mul (js_floor_div (Fin scrollTop) (Fin (bufferHeight p)))
                  (Fin (bufferHeight p))) s))"
    by (rule handleScroll_forwards) (use a assms in \<open>simp_all add: js_sub_def\<close>)
  then show "handleScroll p s (scrollLeft, scrollTop) =
              Some (sync_table scrollLeft scrollTop
                     (s\<lparr>scrollTopRef := NaN, firstRowIndex := NaN\<rparr>))"
    by (simp add: assms js_mul_signed_inf_zero publish_firstRowIndex_NaN)
  show "lastRowIndex p (sync_table scrollLeft scrollTop
                     (s\<lparr>scrollTopRef := NaN, firstRowIndex := NaN\<rparr>)) = NaN"
    by (simp add: lastRowIndex_def)
next
  assume a: "scrollTopRef s = NaN \<and> 0 \<le> scrollTop"
  show "handleScroll p s (scrollLeft, scrollTop) = Some (sync_table scrollLeft scrollTop s)"
    by (rule handleScroll_idle) (use a assms in \<open>simp_all add: js_sub_def\<close>)
qed

lemma zero_bufferHeight_behaviour_example:
  "bufferHeight \<lparr>bufferCount = 0, dataRowCount = 1000, rowHeight = 20, visibleRowCount = 10\<rparr> = 0 \<and>
   handleScroll \<lparr>bufferCount = 0, dataRowCount = 1000, rowHeight = 20, visibleRowCount = 10\<rparr>
     \<lparr>scrollTopRef = Fin 0, firstRowIndex = Fin 0, table = Some (0, 0)\<rparr> (0, 40) =
     Some \<lparr>scrollTopRef = NaN, firstRowIndex = NaN, table = Some (0, 40)\<rparr> \<and>
   handleScroll \<lparr>bufferCount = 0, dataRowCount = 1000, rowHeight = 20, visibleRowCount = 10\<rparr>
     \<lparr>scrollTopRef = NaN, firstRowIndex = NaN, table = Some (0, 40)\<rparr> (0, 80) =
     Some \<lparr>scrollTopRef = NaN, firstRowIndex = NaN, table = Some (0, 80)\<rparr>"
proof -
  let ?p = "\<lparr>bufferCount = 0, dataRowCount = 1000, rowHeight = 20, visibleRowCount = 10\<rparr>"
  let ?s0 = "\<lparr>scrollTopRef = Fin 0, firstRowIndex = Fin 0, table = Some (0, 0)\<rparr>"
  let ?s1 = "\<lparr>scrollTopRef = NaN, firstRowIndex = NaN, table = Some (0, 40)\<rparr>"
  have z: "bufferHeight ?p = 0" by (simp add: bufferHeight_def)
  from zero_bufferHeight_behaviour[OF z, of ?s0 0 40 0]
  have "handleScroll ?p ?s0 (0, 40) = Some ?s1" by (simp add: sync_table_def)
  moreover from zero_bufferHeight_behaviour[OF z, of ?s1 0 80 0]
  have "handleScroll ?p ?s1 (0, 80) =
     Some \<lparr>scrollTopRef = NaN, firstRowIndex = NaN, table = Some (0, 80)\<rparr>"
    by (simp add: sync_table_def)
  ultimately show ?thesis using z by simp
qed

text \<open>
  C4. The claim: with \<open>rowHeight = 0\<close> or \<open>bufferCount = 0\<close>, \<open>handleScroll\<close> processes
  every scroll event without error, recomputes the render range on every event and still
  yields well-defined numeric \<open>firstRowIndex\<close> and \<open>lastRowIndex\<close>. The code does not do
  that. With \<open>bufferCount = 0\<close> and \<open>rowHeight = 20\<close>, the first forward scroll, from
  anchor 0 to \<open>scrollTop = 60\<close>, computes \<open>Math.floor(60 / 0) * 0\<close> and publishes \<open>NaN\<close>
  as \<open>firstRowIndex\<close>, so \<open>lastRowIndex\<close> is \<open>NaN\<close>; the next event, to
  \<open>scrollTop = 400\<close>, recomputes nothing; and a backward event from the finite anchor 200
  to \<open>scrollTop = 40\<close> never returns, its \<open>while\<close> loop subtracting zero for ever.
\<close>

theorem zero_bufferHeight_failing_input:
  "handleScroll \<lparr>bufferCount = 0, dataRowCount = 1000, rowHeight = 20, visibleRowCount = 10\<rparr>
     \<lparr>scrollTopRef = Fin 0, firstRowIndex = Fin 0, table = None\<rparr> (0, 60) =
     Some \<lparr>scrollTopRef = NaN, firstRowIndex = NaN, table = None\<rparr> \<and>
   lastRowIndex \<lparr>bufferCount = 0, dataRowCount = 1000, rowHeight = 20, visibleRowCount = 10\<rparr>
     \<lparr>scrollTopRef = NaN, firstRowIndex = NaN, table = None\<rparr> = NaN \<and>
   handleScroll \<lparr>bufferCount = 0, dataRowCount = 1000, rowHeight = 20, visibleRowCount = 10\<rparr>
     \<lparr>scrollTopRef = NaN, firstRowIndex = NaN, table = None\<rparr> (0, 400) =
     Some \<lparr>scrollTopRef = NaN, firstRowIndex = NaN, table = None\<rparr> \<and>
   handleScroll \<lparr>bufferCount = 0, dataRowCount = 1000, rowHeight = 20, visibleRowCount = 10\<rparr>
     \<lparr>scrollTopRef = Fin 200, firstRowIndex = Fin 5, table = None\<rparr> (0, 40) = None"
proof -
  let ?p = "\<lparr>bufferCount = 0, dataRowCount = 1000, rowHeight = 20, visibleRowCount = 10\<rparr>"
  have nan: "handleScroll ?p \<lparr>scrollTopRef = Fin 0, firstRowIndex = Fin 0, table = None\<rparr> (0, 60) =
     Some \<lparr>scrollTopRef = NaN, firstRowIndex = NaN, table = None\<rparr>"
    by (simp add: handleScroll_def Let_def js_sub_def bufferHeight_def renderedRowsCount_def
        sync_table_def publish_firstRowIndex_def js_max_def signed_inf_def)
  have last: "lastRowIndex ?p \<lparr>scrollTopRef = NaN, firstRowIndex = NaN, table = None\<rparr> = NaN"
    by (simp add: lastRowIndex_def)
  have stuck: "handleScroll ?p \<lparr>scrollTopRef = NaN, firstRowIndex = NaN, table = None\<rparr> (0, 400) =
     Some \<lparr>scrollTopRef = NaN, firstRowIndex = NaN, table = None\<rparr>"
    by (simp add: handleScroll_def Let_def js_sub_def bufferHeight_def sync_table_def)
  have hang: "handleScroll ?p \<lparr>scrollTopRef = Fin 200, firstRowIndex = Fin 5, table = None\<rparr> (0, 40) = None"
    by (rule handleScroll_zero_buffer_backward_diverges[where a = 200])
       (simp_all add: bufferHeight_def)
  from nan last stuck hang show ?thesis by blast
qed

text \<open>
  What a forward re-range computes: the new anchor is
  \<open>Math.floor(scrollTop / bufferHeight) * bufferHeight\<close> and the published
  \<open>firstRowIndex\<close> is \<open>Math.max(0, Math.floor(anchor / rowHeight) - bufferCount)\<close>, replaced
  by \<open>dataRowCount - renderedRowsCount\<close> when that value plus \<open>renderedRowsCount\<close> exceeds
  \<open>dataRowCount\<close>. As long as \<open>bufferHeight\<close> is not zero these are whole numbers, the
  scroll from anchor 0 to 250 with \<open>rowHeight = 20\<close> and \<open>bufferCount = 5\<close> gives anchor
  200 and first row 5, and with \<open>dataRowCount = 100\<close> and \<open>renderedRowsCount = 20\<close> the
  published index lies between 0 and 80.
\<close>

lemma forward_rerange:
  assumes fw: "js_gt (js_sub (Fin scrollTop) (scrollTopRef s)) (Fin 0)"
    and trig: "js_gt (js_abs (js_sub (Fin scrollTop) (scrollTopRef s))) (Fin (bufferHeight p)) \<or>
               scrollTop < bufferHeight p"
  shows "\<exists>s'. handleScroll p s (scrollLeft, scrollTop) = Some s' \<and>
     scrollTopRef s' =
       js_mul (js_floor_div (Fin scrollTop) (Fin (bufferHeight p))) (Fin (bufferHeight p)) \<and>
     firstRowIndex s' =
       (let first = js_max (Fin 0)
                      (js_sub (js_floor_div (scrollTopRef s') (Fin (rowHeight p)))
                         (Fin (bufferCount p)))
        in if js_gt (js_add first (Fin (renderedRowsCount p))) (Fin (dataRowCount p))
           then Fin (dataRowCount p - renderedRowsCount p) else first) \<and>
     (bufferHeight p \<noteq> 0 \<longrightarrow>
        scrollTopRef s' = Fin (scrollTop div bufferHeight p * bufferHeight p) \<and>
        firstRowIndex s' =
          Fin (let first = max 0 (scrollTop div bufferHeight p * bufferHeight p div rowHeight p
                                  - bufferCount p)
               in if first + renderedRowsCount p > dataRowCount p
                  then dataRowCount p - renderedRowsCount p else first)) \<and>
     (rowHeight p = 20 \<and> bufferCount p = 5 \<and> scrollTopRef s = Fin 0 \<and> scrollTop = 250 \<longrightarrow>
        scrollTopRef s' = Fin 200 \<and>
        firstRowIndex s' =
          (if 5 + renderedRowsCount p > dataRowCount p
           then Fin (dataRowCount p - renderedRowsCount p) else Fin 5)) \<and>
     (bufferHeight p \<noteq> 0 \<and> dataRowCount p = 100 \<and> renderedRowsCount p = 20 \<longrightarrow>
        (\<exists>i. firstRowIndex s' = Fin i \<and> 0 \<le> i \<and> i + 20 \<le> 100))"
proof -
  let ?anchor = "js_mul (js_floor_div (Fin scrollTop) (Fin (bufferHeight p))) (Fin (bufferHeight p))"
  let ?s' = "sync_table scrollLeft scrollTop (publish_firstRowIndex p ?anchor s)"
  have run: "handleScroll p s (scrollLeft, scrollTop) = Some ?s'"
    using fw trig by (rule handleScroll_forwards)
  have anchor: "scrollTopRef ?s' = ?anchor"
    by (simp add: publish_firstRowIndex_def Let_def)
  have first: "firstRowIndex ?s' =
       (let first = js_max (Fin 0)
                      (js_sub (js_floor_div (scrollTopRef ?s') (Fin (rowHeight p)))
                         (Fin (bufferCount p)))
        in if js_gt (js_add first (Fin (renderedRowsCount p))) (Fin (dataRowCount p))
           then Fin (dataRowCount p - renderedRowsCount p) else first)"
    unfolding anchor by (simp add: publish_firstRowIndex_def Let_def)
  have fin: "scrollTopRef ?s' = Fin (scrollTop div bufferHeight p * bufferHeight p) \<and>
        firstRowIndex ?s' =
          Fin (let first = max 0 (scrollTop div bufferHeight p * bufferHeight p div rowHeight p
                                  - bufferCount p)
               in if first + renderedRowsCount p > dataRowCount p
                  then dataRowCount p - renderedRowsCount p else first)"
    if nz: "bufferHeight p \<noteq> 0"
  proof -
    from nz have rh: "rowHeight p \<noteq> 0" by (auto simp: bufferHeight_def)
    have a: "?anchor = Fin (scrollTop div bufferHeight p * bufferHeight p)"
      using nz by simp
    show ?thesis unfolding a by (simp add: publish_firstRowIndex_Fin[OF rh])
  qed
  have example: "scrollTopRef ?s' = Fin 200 \<and>
        firstRowIndex ?s' =
          (if 5 + renderedRowsCount p > dataRowCount p
           then Fin (dataRowCount p - renderedRowsCount p) else Fin 5)"
    if e: "rowHeight p = 20 \<and> bufferCount p = 5 \<and> scrollTopRef s = Fin 0 \<and> scrollTop = 250"
  proof -
    from e have bh: "bufferHeight p = 100" by (simp add: bufferHeight_def)
    then have "bufferHeight p \<noteq> 0" by simp
    from fin[OF this] show ?thesis using e by (simp add: bh Let_def)
  qed
  have clamp: "\<exists>i. firstRowIndex ?s' = Fin i \<and> 0 \<le> i \<and> i + 20 \<le> 100"
    if c: "bufferHeight p \<noteq> 0 \<and> dataRowCount p = 100 \<and> renderedRowsCount p = 20"
  proof -
    from c have "bufferHeight p \<noteq> 0" by simp
    from fin[OF this] c show ?thesis by (auto simp: Let_def)
  qed
  from run anchor first fin example clamp show ?thesis by blast
qed

lemma forward_rerange_example:
  "handleScroll \<lparr>bufferCount = 5, dataRowCount = 1000, rowHeight = 20, visibleRowCount = 10\<rparr>
     (useScroll_init None) (0, 250) =
     Some \<lparr>scrollTopRef = Fin 200, firstRowIndex = Fin 5, table = None\<rparr> \<and>
   handleScroll \<lparr>bufferCount = 5, dataRowCount = 100, rowHeight = 20, visibleRowCount = 10\<rparr>
     (useScroll_init None) (0, 2000) =
     Some \<lparr>scrollTopRef = Fin 2000, firstRowIndex = Fin 80, table = None\<rparr>"
proof -
  let ?p = "\<lparr>bufferCount = 5, dataRowCount = 1000, rowHeight = 20, visibleRowCount = 10\<rparr>"
  let ?q = "\<lparr>bufferCount = 5, dataRowCount = 100, rowHeight = 20, visibleRowCount = 10\<rparr>"
  let ?s = "useScroll_init None"
  have fw: "js_gt (js_sub (Fin 250) (scrollTopRef ?s)) (Fin 0)"
    by (simp add: useScroll_init_def js_sub_def)
  have trig: "js_gt (js_abs (js_sub (Fin 250) (scrollTopRef ?s))) (Fin (bufferHeight ?p)) \<or>
               250 < bufferHeight ?p"
    by (simp add: useScroll_init_def js_sub_def bufferHeight_def)
  from forward_rerange[OF fw trig, of 0]
  obtain s1 where r1: "handleScroll ?p ?s (0, 250) = Some s1"
    and a1: "scrollTopRef s1 = Fin 200"
    and f1: "firstRowIndex s1 = Fin 5"
    by (auto simp: useScroll_init_def renderedRowsCount_def)
  have t1: "table s1 = None"
    using r1 by (auto simp: handleScroll_def Let_def useScroll_init_def js_sub_def
        bufferHeight_def sync_table_def publish_firstRowIndex_def)
  have fw2: "js_gt (js_sub (Fin 2000) (scrollTopRef ?s)) (Fin 0)"
    by (simp add: useScroll_init_def js_sub_def)
  have trig2: "js_gt (js_abs (js_sub (Fin 2000) (scrollTopRef ?s))) (Fin (bufferHeight ?q)) \<or>
               2000 < bufferHeight ?q"
    by (simp add: useScroll_init_def js_sub_def bufferHeight_def)
  from forward_rerange[OF fw2 trig2, of 0]
  obtain s2 where r2: "handleScroll ?q ?s (0, 2000) = Some s2"
    and a2: "scrollTopRef s2 = Fin (2000 div bufferHeight ?q * bufferHeight ?q)"
    and f2: "firstRowIndex s2 =
          Fin (let first = max 0 (2000 div bufferHeight ?q * bufferHeight ?q div rowHeight ?q
                                  - bufferCount ?q)
               in if first + renderedRowsCount ?q > dataRowCount ?q
                  then dataRowCount ?q - renderedRowsCount ?q else first)"
    by (auto simp: bufferHeight_def)
  have t2: "table s2 = None"
    using r2 by (auto simp: handleScroll_def Let_def useScroll_init_def js_sub_def
        bufferHeight_def sync_table_def publish_firstRowIndex_def)
  have "s1 = \<lparr>scrollTopRef = Fin 200, firstRowIndex = Fin 5, table = None\<rparr>"
    using a1 f1 t1 by (cases s1) simp
  moreover have "s2 = \<lparr>scrollTopRef = Fin 2000, firstRowIndex = Fin 80, table = None\<rparr>"
    using a2 f2 t2 by (cases s2) (simp add: bufferHeight_def renderedRowsCount_def)
  ultimately show ?thesis using r1 r2 by simp
qed

text \<open>
  C5. The claim: a forward re-range sets the anchor to
  \<open>floor(scrollTop / bufferHeight) * bufferHeight\<close> and publishes
  \<open>max(0, floor(anchor / rowHeight) - bufferCount)\<close>, clamped at the end of the data, so
  that with \<open>dataRowCount = 100\<close> and \<open>renderedRowCount = 20\<close> every published
  \<open>firstRowIndex\<close> satisfies \<open>firstRowIndex >= 0\<close> and \<open>firstRowIndex + 20 <= 100\<close>. The
  code breaks the bound at \<open>rowHeight = 0\<close>, \<open>bufferCount = 5\<close>, \<open>visibleRowCount = 10\<close>,
  \<open>dataRowCount = 100\<close>: the scroll from anchor 0 to \<open>scrollTop = 250\<close> triggers a forward
  re-range, the unguarded division gives the anchor \<open>NaN\<close>, and \<open>NaN\<close> passes both
  \<open>Math.max(0, ...)\<close> and the clamp, so \<open>NaN\<close> is published, for which neither
  inequality holds.
\<close>

theorem forward_rerange_zero_rowHeight_failing_input:
  "js_gt (js_sub (Fin 250) (Fin 0)) (Fin 0) \<and>
   js_gt (js_abs (js_sub (Fin 250) (Fin 0)))
     (Fin (bufferHeight \<lparr>bufferCount = 5, dataRowCount = 100, rowHeight = 0,
                          visibleRowCount = 10\<rparr>)) \<and>
   renderedRowsCount \<lparr>bufferCount = 5, dataRowCount = 100, rowHeight = 0,
                      visibleRowCount = 10\<rparr> = 20 \<and>
   handleScroll \<lparr>bufferCount = 5, dataRowCount = 100, rowHeight = 0, visibleRowCount = 10\<rparr>
     \<lparr>scrollTopRef = Fin 0, firstRowIndex = Fin 0, table = None\<rparr> (0, 250) =
     Some \<lparr>scrollTopRef = NaN, firstRowIndex = NaN, table = None\<rparr> \<and>
   \<not> js_ge NaN (Fin 0) \<and>
   \<not> js_le (js_add NaN (Fin 20)) (Fin 100)"
  by (simp add: handleScroll_def Let_def js_sub_def bufferHeight_def renderedRowsCount_def
      sync_table_def publish_firstRowIndex_def js_max_def signed_inf_def js_ge_def js_le_def)

text \<open>
  C6. For every scroll event with \<open>|scrollTop - anchor| <= bufferHeight\<close> and
  \<open>scrollTop >= bufferHeight\<close>, \<open>handleScroll\<close> returns and leaves \<open>firstRowIndex\<close>, and
  with it \<open>lastRowIndex\<close> and the anchor, unchanged.
\<close>

theorem hysteresis_keeps_firstRowIndex:
  assumes "js_le (js_abs (js_sub (Fin scrollTop) (scrollTopRef s))) (Fin (bufferHeight p))"
    and "bufferHeight p \<le> scrollTop"
  shows "\<exists>s'. handleScroll p s (scrollLeft, scrollTop) = Some s' \<and>
            firstRowIndex s' = firstRowIndex s \<and>
            lastRowIndex p s' = lastRowIndex p s \<and>
            scrollTopRef s' = scrollTopRef s"
proof -
  have "\<not> js_gt (js_abs (js_sub (Fin scrollTop) (scrollTopRef s))) (Fin (bufferHeight p))"
    using assms(1) by (rule js_le_not_gt)
  moreover have "\<not> scrollTop < bufferHeight p" using assms(2) by simp
  ultimately have "handleScroll p s (scrollLeft, scrollTop) = Some (sync_table scrollLeft scrollTop s)"
    by (rule handleScroll_idle)
  then show ?thesis by (simp add: lastRowIndex_def)
qed

theorem hysteresis_keeps_firstRowIndex_witness:
  "js_le (js_abs (js_sub (Fin 260) (Fin 200))) (Fin 100) \<and>
   handleScroll \<lparr>bufferCount = 5, dataRowCount = 1000, rowHeight = 20, visibleRowCount = 10\<rparr>
     \<lparr>scrollTopRef = Fin 200, firstRowIndex = Fin 5, table = None\<rparr> (0, 260) =
   Some \<lparr>scrollTopRef = Fin 200, firstRowIndex = Fin 5, table = None\<rparr>"
proof -
  let ?p = "\<lparr>bufferCount = 5, dataRowCount = 1000, rowHeight = 20, visibleRowCount = 10\<rparr>"
  let ?s = "\<lparr>scrollTopRef = Fin 200, firstRowIndex = Fin 5, table = None\<rparr>"
  have c1: "js_le (js_abs (js_sub (Fin 260) (Fin 200))) (Fin 100)"
    by (simp add: js_le_def js_ge_def js_sub_def)
  then have h1: "js_le (js_abs (js_sub (Fin 260) (scrollTopRef ?s))) (Fin (bufferHeight ?p))"
    by (simp add: bufferHeight_def)
  have h2: "bufferHeight ?p \<le> 260" by (simp add: bufferHeight_def)
  from hysteresis_keeps_firstRowIndex[OF h1 h2, of 0]
  obtain s' where s': "handleScroll ?p ?s (0, 260) = Some s'"
    and f: "firstRowIndex s' = firstRowIndex ?s" by blast
  have "handleScroll ?p ?s (0, 260) = Some ?s"
    by (simp add: handleScroll_def Let_def js_sub_def bufferHeight_def sync_table_def)
  with c1 show ?thesis by simp
qed

end
